theory Spec2Isabelle
  imports Main
begin

section \<open>Pointers, the allocator interface and failures\<close>

text \<open>
  A raw pointer \<open>C*\<close> is an address; \<open>nullptr\<close> is address 0.  Two pointers are
  compared by identity, that is by address, never by what they point to.
\<close>

type_synonym ptr = nat

definition nullptr :: ptr where
  "nullptr = 0"

text \<open>
  The wrappers sit on two pairs of primitives: \<open>new\<close>/\<open>delete\<close> for a single object
  and \<open>new[]\<close>/\<open>delete[]\<close> for an array.  A program state records every call that
  reaches one of them, in order, as an instrumented allocator would.
\<close>

datatype kind = Single | Array

datatype call = Allocate kind ptr | Deallocate kind ptr

text \<open>
  \<open>Assertion_failed\<close> is the abort of a failed \<open>assert\<close>;
  \<open>Undefined_behaviour\<close> stands for every execution the language gives no meaning to
  (reading through a null pointer, calling a member of an object that no longer lives).
\<close>

datatype failure = Assertion_failed | Undefined_behaviour

section \<open>The two classes and the program state\<close>

text \<open>
  Each class has one private data member, \<open>C* ptr_\<close> and \<open>C* array_\<close>.  A name may
  not end in an underscore here, so the fields are \<open>ptr_m\<close> and \<open>array_m\<close>.
\<close>

record scoped_ptr =
  ptr_m :: ptr

record scoped_array =
  array_m :: ptr

text \<open>
  Objects are identified by their position in the store of their class; a destructed
  object leaves \<open>None\<close> behind.  Member functions take the identity of \<open>this\<close>, so that
  two references to the same object (as in \<open>w.swap(w)\<close>) are the same index.
\<close>

record program =
  ptrs :: "scoped_ptr option list"
  arrays :: "scoped_array option list"
  calls :: "call list"

definition init :: program where
  "init = \<lparr>ptrs = [], arrays = [], calls = []\<rparr>"

definition object :: "'a option list \<Rightarrow> nat \<Rightarrow> failure + 'a" where
  "object h i =
     (if i < length h
      then (case h ! i of None \<Rightarrow> Inl Undefined_behaviour | Some w \<Rightarrow> Inr w)
      else Inl Undefined_behaviour)"

text \<open>
  The delete-expressions.  On a null pointer they have no effect (both destructors rely
  on it: ``We don't need to test ptr_ == nullptr because C++ does that for us'');
  otherwise the deallocation primitive of the matching kind is called once.
\<close>

definition delete_single :: "ptr \<Rightarrow> program \<Rightarrow> program" where
  "delete_single p s =
     (if p = nullptr then s else s\<lparr>calls := calls s @ [Deallocate Single p]\<rparr>)"

definition delete_array :: "ptr \<Rightarrow> program \<Rightarrow> program" where
  "delete_array p s =
     (if p = nullptr then s else s\<lparr>calls := calls s @ [Deallocate Array p]\<rparr>)"

text \<open>
  \<open>assert\<close> of \<open><assert.h>\<close>: with \<open>NDEBUG\<close> defined the macro expands to nothing,
  otherwise a false condition aborts the program.  The first argument says whether
  \<open>NDEBUG\<close> is defined in the build.
\<close>

definition c_assert :: "bool \<Rightarrow> bool \<Rightarrow> failure + unit" where
  "c_assert ndebug cond = (if ndebug \<or> cond then Inr () else Inl Assertion_failed)"

section \<open>Class \<open>scoped_ptr\<close>\<close>

text \<open>\<open>explicit scoped_ptr(C* p = nullptr) : ptr_(p) { }\<close>; the result is the new object.\<close>

definition scoped_ptr_ctor :: "ptr \<Rightarrow> program \<Rightarrow> failure + (nat \<times> program)" where
  "scoped_ptr_ctor p s =
     Inr (length (ptrs s), s\<lparr>ptrs := ptrs s @ [Some \<lparr>ptr_m = p\<rparr>]\<rparr>)"

text \<open>\<open>~scoped_ptr() { delete ptr_; }\<close>\<close>

definition scoped_ptr_dtor :: "nat \<Rightarrow> program \<Rightarrow> failure + program" where
  "scoped_ptr_dtor this s =
     (case object (ptrs s) this of
        Inl e \<Rightarrow> Inl e
      | Inr w \<Rightarrow>
          (let s1 = delete_single (ptr_m w) s
           in Inr (s1\<lparr>ptrs := (ptrs s1)[this := None]\<rparr>)))"

text \<open>\<open>void reset(C* p = nullptr) { if (p != ptr_) { delete ptr_; ptr_ = p; } }\<close>\<close>

definition scoped_ptr_reset :: "nat \<Rightarrow> ptr \<Rightarrow> program \<Rightarrow> failure + program" where
  "scoped_ptr_reset this p s =
     (case object (ptrs s) this of
        Inl e \<Rightarrow> Inl e
      | Inr w \<Rightarrow>
          if p \<noteq> ptr_m w
          then (let s1 = delete_single (ptr_m w) s
                in Inr (s1\<lparr>ptrs := (ptrs s1)[this := Some (w\<lparr>ptr_m := p\<rparr>)]\<rparr>))
          else Inr s)"

text \<open>
  \<open>C& operator*() const { assert(ptr_ != nullptr); return *ptr_; }\<close>.  The reference
  returned is modelled by the address of the object it designates; \<open>*ptr_\<close> on a null
  pointer has no meaning.
\<close>

definition scoped_ptr_operator_star ::
  "bool \<Rightarrow> nat \<Rightarrow> program \<Rightarrow> failure + (ptr \<times> program)" where
  "scoped_ptr_operator_star ndebug this s =
     (case object (ptrs s) this of
        Inl e \<Rightarrow> Inl e
      | Inr w \<Rightarrow>
          (case c_assert ndebug (ptr_m w \<noteq> nullptr) of
             Inl e \<Rightarrow> Inl e
           | Inr _ \<Rightarrow>
               if ptr_m w = nullptr then Inl Undefined_behaviour else Inr (ptr_m w, s)))"

text \<open>\<open>C* operator->() const { assert(ptr_ != nullptr); return ptr_; }\<close>\<close>

definition scoped_ptr_operator_arrow ::
  "bool \<Rightarrow> nat \<Rightarrow> program \<Rightarrow> failure + (ptr \<times> program)" where
  "scoped_ptr_operator_arrow ndebug this s =
     (case object (ptrs s) this of
        Inl e \<Rightarrow> Inl e
      | Inr w \<Rightarrow>
          (case c_assert ndebug (ptr_m w \<noteq> nullptr) of
             Inl e \<Rightarrow> Inl e
           | Inr _ \<Rightarrow> Inr (ptr_m w, s)))"

text \<open>\<open>C* get() const { return ptr_; }\<close>\<close>

definition scoped_ptr_get :: "nat \<Rightarrow> program \<Rightarrow> failure + (ptr \<times> program)" where
  "scoped_ptr_get this s =
     (case object (ptrs s) this of Inl e \<Rightarrow> Inl e | Inr w \<Rightarrow> Inr (ptr_m w, s))"

text \<open>\<open>bool operator==(C* p) const { return ptr_ == p; }\<close>\<close>

definition scoped_ptr_operator_eq ::
  "nat \<Rightarrow> ptr \<Rightarrow> program \<Rightarrow> failure + (bool \<times> program)" where
  "scoped_ptr_operator_eq this p s =
     (case object (ptrs s) this of Inl e \<Rightarrow> Inl e | Inr w \<Rightarrow> Inr (ptr_m w = p, s))"

text \<open>\<open>bool operator!=(C* p) const { return ptr_ != p; }\<close>\<close>

definition scoped_ptr_operator_ne ::
  "nat \<Rightarrow> ptr \<Rightarrow> program \<Rightarrow> failure + (bool \<times> program)" where
  "scoped_ptr_operator_ne this p s =
     (case object (ptrs s) this of Inl e \<Rightarrow> Inl e | Inr w \<Rightarrow> Inr (ptr_m w \<noteq> p, s))"

text \<open>
  \<open>void swap(scoped_ptr& p2) { C* tmp = ptr_; ptr_ = p2.ptr_; p2.ptr_ = tmp; }\<close>.
  The three statements run in order on the store, and \<open>p2\<close> is read again after the
  first assignment, so that the model is right when \<open>p2\<close> is \<open>this\<close>.
\<close>

definition scoped_ptr_swap :: "nat \<Rightarrow> nat \<Rightarrow> program \<Rightarrow> failure + program" where
  "scoped_ptr_swap this p2 s =
     (case object (ptrs s) this of
        Inl e \<Rightarrow> Inl e
      | Inr w \<Rightarrow>
          (let tmp = ptr_m w
           in (case object (ptrs s) p2 of
                 Inl e \<Rightarrow> Inl e
               | Inr w2 \<Rightarrow>
                   (let h1 = (ptrs s)[this := Some (w\<lparr>ptr_m := ptr_m w2\<rparr>)]
                    in (case object h1 p2 of
                          Inl e \<Rightarrow> Inl e
                        | Inr w2' \<Rightarrow>
                            Inr (s\<lparr>ptrs := h1[p2 := Some (w2'\<lparr>ptr_m := tmp\<rparr>)]\<rparr>))))))"

text \<open>\<open>C* release() { C* retVal = ptr_; ptr_ = nullptr; return retVal; }\<close>\<close>

definition scoped_ptr_release :: "nat \<Rightarrow> program \<Rightarrow> failure + (ptr \<times> program)" where
  "scoped_ptr_release this s =
     (case object (ptrs s) this of
        Inl e \<Rightarrow> Inl e
      | Inr w \<Rightarrow>
          (let retVal = ptr_m w
           in Inr (retVal, s\<lparr>ptrs := (ptrs s)[this := Some (w\<lparr>ptr_m := nullptr\<rparr>)]\<rparr>)))"

section \<open>Class \<open>scoped_array\<close>\<close>

text \<open>\<open>explicit scoped_array(C* p = nullptr) : array_(p) { }\<close>\<close>

definition scoped_array_ctor :: "ptr \<Rightarrow> program \<Rightarrow> failure + (nat \<times> program)" where
  "scoped_array_ctor p s =
     Inr (length (arrays s), s\<lparr>arrays := arrays s @ [Some \<lparr>array_m = p\<rparr>]\<rparr>)"

text \<open>\<open>~scoped_array() { delete[] array_; }\<close>\<close>

definition scoped_array_dtor :: "nat \<Rightarrow> program \<Rightarrow> failure + program" where
  "scoped_array_dtor this s =
     (case object (arrays s) this of
        Inl e \<Rightarrow> Inl e
      | Inr w \<Rightarrow>
          (let s1 = delete_array (array_m w) s
           in Inr (s1\<lparr>arrays := (arrays s1)[this := None]\<rparr>)))"

text \<open>\<open>void reset(C* p = nullptr) { if (p != array_) { delete[] array_; array_ = p; } }\<close>\<close>

definition scoped_array_reset :: "nat \<Rightarrow> ptr \<Rightarrow> program \<Rightarrow> failure + program" where
  "scoped_array_reset this p s =
     (case object (arrays s) this of
        Inl e \<Rightarrow> Inl e
      | Inr w \<Rightarrow>
          if p \<noteq> array_m w
          then (let s1 = delete_array (array_m w) s
                in Inr (s1\<lparr>arrays := (arrays s1)[this := Some (w\<lparr>array_m := p\<rparr>)]\<rparr>))
          else Inr s)"

text \<open>
  \<open>C& operator[](std::ptrdiff_t i) const
     { assert(i >= 0); assert(array_ != nullptr); return array_[i]; }\<close>.
  The reference returned is modelled by the block and the index in it.  The class does
  not know the length of the block, so no upper bound is checked; \<open>array_[i]\<close> has no
  meaning on a null pointer or before the start of the block.
\<close>

definition scoped_array_operator_index ::
  "bool \<Rightarrow> nat \<Rightarrow> int \<Rightarrow> program \<Rightarrow> failure + ((ptr \<times> int) \<times> program)" where
  "scoped_array_operator_index ndebug this i s =
     (case object (arrays s) this of
        Inl e \<Rightarrow> Inl e
      | Inr w \<Rightarrow>
          (case c_assert ndebug (i \<ge> 0) of
             Inl e \<Rightarrow> Inl e
           | Inr _ \<Rightarrow>
               (case c_assert ndebug (array_m w \<noteq> nullptr) of
                  Inl e \<Rightarrow> Inl e
                | Inr _ \<Rightarrow>
                    if array_m w = nullptr \<or> i < 0 then Inl Undefined_behaviour
                    else Inr ((array_m w, i), s))))"

text \<open>\<open>C* get() const { return array_; }\<close>\<close>

definition scoped_array_get :: "nat \<Rightarrow> program \<Rightarrow> failure + (ptr \<times> program)" where
  "scoped_array_get this s =
     (case object (arrays s) this of Inl e \<Rightarrow> Inl e | Inr w \<Rightarrow> Inr (array_m w, s))"

text \<open>\<open>bool operator==(C* p) const { return array_ == p; }\<close>\<close>

definition scoped_array_operator_eq ::
  "nat \<Rightarrow> ptr \<Rightarrow> program \<Rightarrow> failure + (bool \<times> program)" where
  "scoped_array_operator_eq this p s =
     (case object (arrays s) this of Inl e \<Rightarrow> Inl e | Inr w \<Rightarrow> Inr (array_m w = p, s))"

text \<open>\<open>bool operator!=(C* p) const { return array_ != p; }\<close>\<close>

definition scoped_array_operator_ne ::
  "nat \<Rightarrow> ptr \<Rightarrow> program \<Rightarrow> failure + (bool \<times> program)" where
  "scoped_array_operator_ne this p s =
     (case object (arrays s) this of Inl e \<Rightarrow> Inl e | Inr w \<Rightarrow> Inr (array_m w \<noteq> p, s))"

text \<open>\<open>void swap(scoped_array& p2) { C* tmp = array_; array_ = p2.array_; p2.array_ = tmp; }\<close>\<close>

definition scoped_array_swap :: "nat \<Rightarrow> nat \<Rightarrow> program \<Rightarrow> failure + program" where
  "scoped_array_swap this p2 s =
     (case object (arrays s) this of
        Inl e \<Rightarrow> Inl e
      | Inr w \<Rightarrow>
          (let tmp = array_m w
           in (case object (arrays s) p2 of
                 Inl e \<Rightarrow> Inl e
               | Inr w2 \<Rightarrow>
                   (let h1 = (arrays s)[this := Some (w\<lparr>array_m := array_m w2\<rparr>)]
                    in (case object h1 p2 of
                          Inl e \<Rightarrow> Inl e
                        | Inr w2' \<Rightarrow>
                            Inr (s\<lparr>arrays := h1[p2 := Some (w2'\<lparr>array_m := tmp\<rparr>)]\<rparr>))))))"

text \<open>\<open>C* release() { C* retVal = array_; array_ = nullptr; return retVal; }\<close>\<close>

definition scoped_array_release :: "nat \<Rightarrow> program \<Rightarrow> failure + (ptr \<times> program)" where
  "scoped_array_release this s =
     (case object (arrays s) this of
        Inl e \<Rightarrow> Inl e
      | Inr w \<Rightarrow>
          (let retVal = array_m w
           in Inr (retVal, s\<lparr>arrays := (arrays s)[this := Some (w\<lparr>array_m := nullptr\<rparr>)]\<rparr>)))"

section \<open>Programs that use the wrappers\<close>

text \<open>
  A client is a sequence of the operations that change a wrapper: construction,
  destruction, \<open>reset\<close>, \<open>swap\<close> and \<open>release\<close>, on either class.  Values returned
  (the new object, the released pointer) are dropped.
\<close>

datatype operation =
    Ptr_construct ptr
  | Ptr_destruct nat
  | Ptr_reset nat ptr
  | Ptr_swap nat nat
  | Ptr_release nat
  | Array_construct ptr
  | Array_destruct nat
  | Array_reset nat ptr
  | Array_swap nat nat
  | Array_release nat

definition discard :: "failure + ('a \<times> program) \<Rightarrow> failure + program" where
  "discard r = (case r of Inl e \<Rightarrow> Inl e | Inr (v, s) \<Rightarrow> Inr s)"

fun step :: "operation \<Rightarrow> program \<Rightarrow> failure + program" where
  "step (Ptr_construct p) s = discard (scoped_ptr_ctor p s)"
| "step (Ptr_destruct w) s = scoped_ptr_dtor w s"
| "step (Ptr_reset w p) s = scoped_ptr_reset w p s"
| "step (Ptr_swap w w2) s = scoped_ptr_swap w w2 s"
| "step (Ptr_release w) s = discard (scoped_ptr_release w s)"
| "step (Array_construct p) s = discard (scoped_array_ctor p s)"
| "step (Array_destruct w) s = scoped_array_dtor w s"
| "step (Array_reset w p) s = scoped_array_reset w p s"
| "step (Array_swap w w2) s = scoped_array_swap w w2 s"
| "step (Array_release w) s = discard (scoped_array_release w s)"

fun run :: "operation list \<Rightarrow> program \<Rightarrow> failure + program" where
  "run [] s = Inr s"
| "run (x # xs) s = (case step x s of Inl e \<Rightarrow> Inl e | Inr s' \<Rightarrow> run xs s')"

text \<open>
  A wrapper adopts a reference when its member is set to a non-null pointer handed in
  by the client: in a constructor, and in \<open>reset\<close> when the pointer is not the one it
  holds already.  \<open>adopted x s\<close> is what operation \<open>x\<close> makes a wrapper adopt in state
  \<open>s\<close>, tagged with the class that adopts (\<open>Single\<close> for \<open>scoped_ptr\<close>, \<open>Array\<close> for
  \<open>scoped_array\<close>); \<open>adoptions\<close> collects them along a run.
\<close>

fun adopted :: "operation \<Rightarrow> program \<Rightarrow> (kind \<times> ptr) list" where
  "adopted (Ptr_construct p) s = (if p = nullptr then [] else [(Single, p)])"
| "adopted (Ptr_reset w p) s =
     (case object (ptrs s) w of
        Inl e \<Rightarrow> []
      | Inr a \<Rightarrow> if p \<noteq> ptr_m a \<and> p \<noteq> nullptr then [(Single, p)] else [])"
| "adopted (Array_construct p) s = (if p = nullptr then [] else [(Array, p)])"
| "adopted (Array_reset w p) s =
     (case object (arrays s) w of
        Inl e \<Rightarrow> []
      | Inr a \<Rightarrow> if p \<noteq> array_m a \<and> p \<noteq> nullptr then [(Array, p)] else [])"
| "adopted (Ptr_destruct w) s = []"
| "adopted (Ptr_swap w w2) s = []"
| "adopted (Ptr_release w) s = []"
| "adopted (Array_destruct w) s = []"
| "adopted (Array_swap w w2) s = []"
| "adopted (Array_release w) s = []"

fun adoptions :: "operation list \<Rightarrow> program \<Rightarrow> (kind \<times> ptr) list" where
  "adoptions [] s = []"
| "adoptions (x # xs) s =
     adopted x s @ (case step x s of Inl e \<Rightarrow> [] | Inr s' \<Rightarrow> adoptions xs s')"

text \<open>
  The bookkeeping that every run keeps, for the adoptions \<open>A\<close> made so far: a
  reference is deallocated by \<open>delete\<close>, or still held by a live \<open>scoped_ptr\<close>, no
  more often than a \<open>scoped_ptr\<close> adopted it, and the same for \<open>delete[]\<close> and
  \<open>scoped_array\<close>; no call is made on a null pointer; the allocation side is never
  called.
\<close>

definition accounted_single :: "(kind \<times> ptr) list \<Rightarrow> program \<Rightarrow> ptr \<Rightarrow> bool" where
  "accounted_single A s p \<longleftrightarrow>
     count_list (calls s) (Deallocate Single p) + count_list (ptrs s) (Some \<lparr>ptr_m = p\<rparr>)
       \<le> count_list A (Single, p)"

definition accounted_array :: "(kind \<times> ptr) list \<Rightarrow> program \<Rightarrow> ptr \<Rightarrow> bool" where
  "accounted_array A s p \<longleftrightarrow>
     count_list (calls s) (Deallocate Array p) + count_list (arrays s) (Some \<lparr>array_m = p\<rparr>)
       \<le> count_list A (Array, p)"

definition only_deallocations :: "program \<Rightarrow> bool" where
  "only_deallocations s \<longleftrightarrow>
     (\<forall>c \<in> set (calls s). \<exists>k p. c = Deallocate k p \<and> p \<noteq> nullptr)"

text \<open>
  The state after \<open>scoped_ptr<C> a0(ps[0]), a1(ps[1]), ...; scoped_array<C> b0(qs[0]), ...\<close>
  with no call made yet; the examples start from it.
\<close>

definition holding :: "ptr list \<Rightarrow> ptr list \<Rightarrow> program" where
  "holding ps qs =
     \<lparr>ptrs = map (\<lambda>p. Some \<lparr>ptr_m = p\<rparr>) ps,
      arrays = map (\<lambda>q. Some \<lparr>array_m = q\<rparr>) qs,
      calls = []\<rparr>"

section \<open>Basic facts about the store and the member functions\<close>

lemma object_live: "i < length h \<Longrightarrow> h ! i = Some w \<Longrightarrow> object h i = Inr w"
  by (simp add: object_def)

lemma scoped_ptr_eta: "(w :: scoped_ptr)\<lparr>ptr_m := p\<rparr> = \<lparr>ptr_m = p\<rparr>"
  by simp

lemma scoped_array_eta: "(w :: scoped_array)\<lparr>array_m := p\<rparr> = \<lparr>array_m = p\<rparr>"
  by simp

text \<open>\<open>get\<close> succeeds exactly on a live object, and never changes the state.\<close>

lemma scoped_ptr_get_iff:
  "scoped_ptr_get w s = Inr (p, t) \<longleftrightarrow>
     w < length (ptrs s) \<and> ptrs s ! w = Some \<lparr>ptr_m = p\<rparr> \<and> t = s"
proof -
  have "\<And>a. a = \<lparr>ptr_m = p\<rparr> \<longleftrightarrow> ptr_m a = p" by auto
  then show ?thesis
    by (auto simp: scoped_ptr_get_def object_def split: sum.splits if_splits option.splits)
qed

lemma scoped_array_get_iff:
  "scoped_array_get w s = Inr (p, t) \<longleftrightarrow>
     w < length (arrays s) \<and> arrays s ! w = Some \<lparr>array_m = p\<rparr> \<and> t = s"
proof -
  have "\<And>a. a = \<lparr>array_m = p\<rparr> \<longleftrightarrow> array_m a = p" by auto
  then show ?thesis
    by (auto simp: scoped_array_get_def object_def split: sum.splits if_splits option.splits)
qed

text \<open>What each mutating member function does on a live object.\<close>

lemma scoped_ptr_dtor_live:
  assumes "w < length (ptrs s)" "ptrs s ! w = Some \<lparr>ptr_m = q\<rparr>"
  shows "scoped_ptr_dtor w s = Inr ((delete_single q s)\<lparr>ptrs := (ptrs s)[w := None]\<rparr>)"
  using assms by (simp add: scoped_ptr_dtor_def object_live delete_single_def)

lemma scoped_array_dtor_live:
  assumes "w < length (arrays s)" "arrays s ! w = Some \<lparr>array_m = q\<rparr>"
  shows "scoped_array_dtor w s = Inr ((delete_array q s)\<lparr>arrays := (arrays s)[w := None]\<rparr>)"
  using assms by (simp add: scoped_array_dtor_def object_live delete_array_def)

lemma scoped_ptr_reset_live:
  assumes "w < length (ptrs s)" "ptrs s ! w = Some \<lparr>ptr_m = q\<rparr>"
  shows "scoped_ptr_reset w p s =
     Inr (if p \<noteq> q
          then (delete_single q s)\<lparr>ptrs := (ptrs s)[w := Some \<lparr>ptr_m = p\<rparr>]\<rparr>
          else s)"
  using assms
  by (simp add: scoped_ptr_reset_def object_live delete_single_def scoped_ptr_eta)

lemma scoped_array_reset_live:
  assumes "w < length (arrays s)" "arrays s ! w = Some \<lparr>array_m = q\<rparr>"
  shows "scoped_array_reset w p s =
     Inr (if p \<noteq> q
          then (delete_array q s)\<lparr>arrays := (arrays s)[w := Some \<lparr>array_m = p\<rparr>]\<rparr>
          else s)"
  using assms
  by (simp add: scoped_array_reset_def object_live delete_array_def scoped_array_eta)

lemma scoped_ptr_release_live:
  assumes "w < length (ptrs s)" "ptrs s ! w = Some \<lparr>ptr_m = q\<rparr>"
  shows "scoped_ptr_release w s =
     Inr (q, s\<lparr>ptrs := (ptrs s)[w := Some \<lparr>ptr_m = nullptr\<rparr>]\<rparr>)"
  using assms by (simp add: scoped_ptr_release_def object_live scoped_ptr_eta)

lemma scoped_array_release_live:
  assumes "w < length (arrays s)" "arrays s ! w = Some \<lparr>array_m = q\<rparr>"
  shows "scoped_array_release w s =
     Inr (q, s\<lparr>arrays := (arrays s)[w := Some \<lparr>array_m = nullptr\<rparr>]\<rparr>)"
  using assms by (simp add: scoped_array_release_def object_live scoped_array_eta)

lemma scoped_ptr_swap_live:
  assumes "w < length (ptrs s)" "ptrs s ! w = Some \<lparr>ptr_m = q\<rparr>"
    and "w2 < length (ptrs s)" "ptrs s ! w2 = Some \<lparr>ptr_m = q2\<rparr>"
  shows "scoped_ptr_swap w w2 s =
     Inr (s\<lparr>ptrs := (ptrs s)[w := Some \<lparr>ptr_m = q2\<rparr>, w2 := Some \<lparr>ptr_m = q\<rparr>]\<rparr>)"
  using assms
  by (cases "w = w2") (simp_all add: scoped_ptr_swap_def object_live scoped_ptr_eta Let_def)

lemma scoped_array_swap_live:
  assumes "w < length (arrays s)" "arrays s ! w = Some \<lparr>array_m = q\<rparr>"
    and "w2 < length (arrays s)" "arrays s ! w2 = Some \<lparr>array_m = q2\<rparr>"
  shows "scoped_array_swap w w2 s =
     Inr (s\<lparr>arrays := (arrays s)[w := Some \<lparr>array_m = q2\<rparr>, w2 := Some \<lparr>array_m = q\<rparr>]\<rparr>)"
  using assms
  by (cases "w = w2") (simp_all add: scoped_array_swap_def object_live scoped_array_eta Let_def)

text \<open>A member function that returns was called on live objects.\<close>

lemma scoped_ptr_swap_Inr:
  assumes "scoped_ptr_swap w w2 s = Inr s'"
  shows "\<exists>q q2. scoped_ptr_get w s = Inr (q, s) \<and> scoped_ptr_get w2 s = Inr (q2, s)"
  using assms
  by (auto simp: scoped_ptr_swap_def scoped_ptr_get_def Let_def split: sum.splits)

lemma scoped_array_swap_Inr:
  assumes "scoped_array_swap w w2 s = Inr s'"
  shows "\<exists>q q2. scoped_array_get w s = Inr (q, s) \<and> scoped_array_get w2 s = Inr (q2, s)"
  using assms
  by (auto simp: scoped_array_swap_def scoped_array_get_def Let_def split: sum.splits)

lemma scoped_ptr_dtor_Inr:
  "scoped_ptr_dtor w s = Inr s' \<Longrightarrow> \<exists>q. scoped_ptr_get w s = Inr (q, s)"
  by (auto simp: scoped_ptr_dtor_def scoped_ptr_get_def split: sum.splits)

lemma scoped_array_dtor_Inr:
  "scoped_array_dtor w s = Inr s' \<Longrightarrow> \<exists>q. scoped_array_get w s = Inr (q, s)"
  by (auto simp: scoped_array_dtor_def scoped_array_get_def split: sum.splits)

lemma scoped_ptr_reset_Inr:
  "scoped_ptr_reset w p s = Inr s' \<Longrightarrow> \<exists>q. scoped_ptr_get w s = Inr (q, s)"
  by (auto simp: scoped_ptr_reset_def scoped_ptr_get_def split: sum.splits)

lemma scoped_array_reset_Inr:
  "scoped_array_reset w p s = Inr s' \<Longrightarrow> \<exists>q. scoped_array_get w s = Inr (q, s)"
  by (auto simp: scoped_array_reset_def scoped_array_get_def split: sum.splits)

lemma scoped_ptr_release_Inr:
  "scoped_ptr_release w s = Inr r \<Longrightarrow> \<exists>q. scoped_ptr_get w s = Inr (q, s)"
  by (auto simp: scoped_ptr_release_def scoped_ptr_get_def split: sum.splits)

lemma scoped_array_release_Inr:
  "scoped_array_release w s = Inr r \<Longrightarrow> \<exists>q. scoped_array_get w s = Inr (q, s)"
  by (auto simp: scoped_array_release_def scoped_array_get_def split: sum.splits)

section \<open>Comparison with a raw pointer\<close>

text \<open>
  C8.  For a wrapper \<open>w\<close> of either class and a raw pointer \<open>p\<close>, \<open>w == p\<close> returns
  true exactly when \<open>w.get() == p\<close>, an equality of addresses; \<open>w != p\<close> returns the
  negation; and both leave the program state, hence \<open>w\<close>, as it was.
\<close>

theorem compare_with_raw_pointer:
  "(scoped_ptr_get w s = Inr (q, s) \<longrightarrow>
      scoped_ptr_operator_eq w p s = Inr (q = p, s) \<and>
      scoped_ptr_operator_ne w p s = Inr (q \<noteq> p, s)) \<and>
   (scoped_array_get v s = Inr (r, s) \<longrightarrow>
      scoped_array_operator_eq v p s = Inr (r = p, s) \<and>
      scoped_array_operator_ne v p s = Inr (r \<noteq> p, s))"
  by (auto simp: scoped_ptr_get_iff scoped_ptr_operator_eq_def scoped_ptr_operator_ne_def
      scoped_array_get_iff scoped_array_operator_eq_def scoped_array_operator_ne_def
      object_live)

theorem compare_with_raw_pointer_witness:
  "scoped_ptr_get 0 (holding [7] [9]) = Inr (7, holding [7] [9]) \<and>
   scoped_ptr_operator_eq 0 7 (holding [7] [9]) = Inr (True, holding [7] [9]) \<and>
   scoped_ptr_operator_ne 0 7 (holding [7] [9]) = Inr (False, holding [7] [9]) \<and>
   scoped_array_get 0 (holding [7] [9]) = Inr (9, holding [7] [9]) \<and>
   scoped_array_operator_eq 0 7 (holding [7] [9]) = Inr (False, holding [7] [9]) \<and>
   scoped_array_operator_ne 0 7 (holding [7] [9]) = Inr (True, holding [7] [9])"
  using compare_with_raw_pointer [of 0 "holding [7] [9]" 7 7 0 9]
  by (simp add: scoped_ptr_get_def scoped_array_get_def object_def holding_def)

section \<open>\<open>reset\<close>\<close>

text \<open>
  C2.  Let \<open>w\<close> be a wrapper of either class that holds \<open>p\<close> (possibly null), and let
  \<open>p2\<close> be a different pointer.  Then \<open>w.reset(p2)\<close> returns, the calls it adds to the
  allocator's record are exactly one deallocation of \<open>p\<close> (of the kind of the class),
  or none when \<open>p\<close> is null, and afterwards \<open>w.get()\<close> is \<open>p2\<close>.
\<close>

theorem reset_other_deallocates_old_once:
  "(scoped_ptr_get w s = Inr (p, s) \<and> p2 \<noteq> p \<longrightarrow>
      (\<exists>s'. scoped_ptr_reset w p2 s = Inr s' \<and>
            calls s' = calls s @ (if p = nullptr then [] else [Deallocate Single p]) \<and>
            scoped_ptr_get w s' = Inr (p2, s'))) \<and>
   (scoped_array_get v s = Inr (q, s) \<and> q2 \<noteq> q \<longrightarrow>
      (\<exists>s'. scoped_array_reset v q2 s = Inr s' \<and>
            calls s' = calls s @ (if q = nullptr then [] else [Deallocate Array q]) \<and>
            scoped_array_get v s' = Inr (q2, s')))"
  by (auto simp: scoped_ptr_get_iff scoped_ptr_reset_live delete_single_def
      scoped_array_get_iff scoped_array_reset_live delete_array_def)

theorem reset_other_deallocates_old_once_witness:
  "scoped_ptr_get 0 (holding [7] [9]) = Inr (7, holding [7] [9]) \<and> (8::nat) \<noteq> 7 \<and>
   (\<exists>s'. scoped_ptr_reset 0 8 (holding [7] [9]) = Inr s' \<and>
         calls s' = [Deallocate Single 7] \<and> scoped_ptr_get 0 s' = Inr (8, s')) \<and>
   scoped_array_get 0 (holding [7] [9]) = Inr (9, holding [7] [9]) \<and> (5::nat) \<noteq> 9 \<and>
   (\<exists>s'. scoped_array_reset 0 5 (holding [7] [9]) = Inr s' \<and>
         calls s' = [Deallocate Array 9] \<and> scoped_array_get 0 s' = Inr (5, s'))"
  using reset_other_deallocates_old_once [of 0 "holding [7] [9]" 7 8 0 9 5]
  by (simp add: scoped_ptr_get_def scoped_array_get_def object_def holding_def nullptr_def)

text \<open>
  C3.  Let \<open>w\<close> be a wrapper of either class and \<open>p\<close> what \<open>w.get()\<close> returns (possibly
  null).  Then \<open>w.reset(p)\<close> returns the state it was called in: no call is added to
  the allocator's record and \<open>w.get()\<close> is still \<open>p\<close>.
\<close>

theorem reset_own_is_noop:
  "(scoped_ptr_get w s = Inr (p, s) \<longrightarrow>
      (\<exists>s'. scoped_ptr_reset w p s = Inr s' \<and> s' = s \<and>
            calls s' = calls s \<and> scoped_ptr_get w s' = Inr (p, s'))) \<and>
   (scoped_array_get v s = Inr (q, s) \<longrightarrow>
      (\<exists>s'. scoped_array_reset v q s = Inr s' \<and> s' = s \<and>
            calls s' = calls s \<and> scoped_array_get v s' = Inr (q, s')))"
  by (auto simp: scoped_ptr_get_iff scoped_ptr_reset_live
      scoped_array_get_iff scoped_array_reset_live)

theorem reset_own_is_noop_witness:
  "scoped_ptr_get 0 (holding [7] [nullptr]) = Inr (7, holding [7] [nullptr]) \<and>
   (\<exists>s'. scoped_ptr_reset 0 7 (holding [7] [nullptr]) = Inr s' \<and>
         calls s' = [] \<and> scoped_ptr_get 0 s' = Inr (7, s')) \<and>
   scoped_array_get 0 (holding [7] [nullptr]) = Inr (nullptr, holding [7] [nullptr]) \<and>
   (\<exists>s'. scoped_array_reset 0 nullptr (holding [7] [nullptr]) = Inr s' \<and>
         calls s' = [] \<and> scoped_array_get 0 s' = Inr (nullptr, s'))"
  using reset_own_is_noop [of 0 "holding [7] [nullptr]" 7 0 nullptr]
  by (simp add: scoped_ptr_get_def scoped_array_get_def object_def holding_def)

section \<open>\<open>release\<close>\<close>

text \<open>
  C4.  Let \<open>w\<close> be a wrapper of either class and \<open>p\<close> what \<open>w.get()\<close> returns.  Then
  \<open>w.release()\<close> returns \<open>p\<close>, adds no call to the allocator's record, and leaves
  \<open>w.get()\<close> null; destructing \<open>w\<close> right after returns and adds no call either.
\<close>

theorem release_returns_and_disowns:
  "(scoped_ptr_get w s = Inr (p, s) \<longrightarrow>
      (\<exists>s'. scoped_ptr_release w s = Inr (p, s') \<and> calls s' = calls s \<and>
            scoped_ptr_get w s' = Inr (nullptr, s') \<and>
            (\<exists>s''. scoped_ptr_dtor w s' = Inr s'' \<and> calls s'' = calls s))) \<and>
   (scoped_array_get v s = Inr (q, s) \<longrightarrow>
      (\<exists>s'. scoped_array_release v s = Inr (q, s') \<and> calls s' = calls s \<and>
            scoped_array_get v s' = Inr (nullptr, s') \<and>
            (\<exists>s''. scoped_array_dtor v s' = Inr s'' \<and> calls s'' = calls s)))"
  by (auto simp: scoped_ptr_get_iff scoped_ptr_release_live scoped_ptr_dtor_live
      delete_single_def scoped_array_get_iff scoped_array_release_live
      scoped_array_dtor_live delete_array_def)

theorem release_returns_and_disowns_witness:
  "scoped_ptr_get 0 (holding [7] [9]) = Inr (7, holding [7] [9]) \<and>
   (\<exists>s'. scoped_ptr_release 0 (holding [7] [9]) = Inr (7, s') \<and> calls s' = [] \<and>
         scoped_ptr_get 0 s' = Inr (nullptr, s') \<and>
         (\<exists>s''. scoped_ptr_dtor 0 s' = Inr s'' \<and> calls s'' = [])) \<and>
   scoped_array_get 0 (holding [7] [9]) = Inr (9, holding [7] [9]) \<and>
   (\<exists>s'. scoped_array_release 0 (holding [7] [9]) = Inr (9, s') \<and> calls s' = [] \<and>
         scoped_array_get 0 s' = Inr (nullptr, s') \<and>
         (\<exists>s''. scoped_array_dtor 0 s' = Inr s'' \<and> calls s'' = []))"
  using release_returns_and_disowns [of 0 "holding [7] [9]" 7 0 9]
  by (simp add: scoped_ptr_get_def scoped_array_get_def object_def holding_def)

section \<open>\<open>swap\<close>\<close>

text \<open>
  C7.  Let \<open>a\<close> and \<open>b\<close> be wrappers of the same class (the same object or two), holding
  \<open>pa\<close> and \<open>pb\<close>.  Then \<open>a.swap(b)\<close> returns, afterwards \<open>a.get()\<close> is \<open>pb\<close> and
  \<open>b.get()\<close> is \<open>pa\<close>, and the allocator's record is unchanged: no allocation and no
  deallocation.
\<close>

theorem swap_exchanges:
  "(scoped_ptr_get a s = Inr (pa, s) \<and> scoped_ptr_get b s = Inr (pb, s) \<longrightarrow>
      (\<exists>s'. scoped_ptr_swap a b s = Inr s' \<and> calls s' = calls s \<and>
            scoped_ptr_get a s' = Inr (pb, s') \<and> scoped_ptr_get b s' = Inr (pa, s'))) \<and>
   (scoped_array_get c s = Inr (qc, s) \<and> scoped_array_get d s = Inr (qd, s) \<longrightarrow>
      (\<exists>s'. scoped_array_swap c d s = Inr s' \<and> calls s' = calls s \<and>
            scoped_array_get c s' = Inr (qd, s') \<and> scoped_array_get d s' = Inr (qc, s')))"
  by (auto simp: scoped_ptr_get_iff scoped_ptr_swap_live
      scoped_array_get_iff scoped_array_swap_live nth_list_update)

theorem swap_exchanges_witness:
  "scoped_ptr_get 0 (holding [7, 8] [9, 5]) = Inr (7, holding [7, 8] [9, 5]) \<and>
   scoped_ptr_get 1 (holding [7, 8] [9, 5]) = Inr (8, holding [7, 8] [9, 5]) \<and>
   (\<exists>s'. scoped_ptr_swap 0 1 (holding [7, 8] [9, 5]) = Inr s' \<and> calls s' = [] \<and>
         scoped_ptr_get 0 s' = Inr (8, s') \<and> scoped_ptr_get 1 s' = Inr (7, s')) \<and>
   scoped_array_get 0 (holding [7, 8] [9, 5]) = Inr (9, holding [7, 8] [9, 5]) \<and>
   scoped_array_get 1 (holding [7, 8] [9, 5]) = Inr (5, holding [7, 8] [9, 5]) \<and>
   (\<exists>s'. scoped_array_swap 0 1 (holding [7, 8] [9, 5]) = Inr s' \<and> calls s' = [] \<and>
         scoped_array_get 0 s' = Inr (5, s') \<and> scoped_array_get 1 s' = Inr (9, s'))"
  using swap_exchanges [of 0 "holding [7, 8] [9, 5]" 7 1 8 0 9 1 5]
  by (simp add: scoped_ptr_get_def scoped_array_get_def object_def holding_def)

text \<open>
  C10.  For a wrapper \<open>w\<close> of either class, \<open>w.swap(w)\<close> returns the state it was
  called in: \<open>w\<close> holds what it held and no call is added to the allocator's record.
  For wrappers \<open>a\<close> and \<open>b\<close> of the same class, when \<open>a.swap(b)\<close> returns, a second
  \<open>a.swap(b)\<close> returns the state before the first.
\<close>

theorem swap_self_and_twice:
  "(scoped_ptr_get w s = Inr (p, s) \<longrightarrow> scoped_ptr_swap w w s = Inr s) \<and>
   (scoped_array_get v s = Inr (q, s) \<longrightarrow> scoped_array_swap v v s = Inr s) \<and>
   (scoped_ptr_swap a b s = Inr s' \<longrightarrow> scoped_ptr_swap a b s' = Inr s) \<and>
   (scoped_array_swap c d s = Inr s'' \<longrightarrow> scoped_array_swap c d s'' = Inr s)"
proof (intro conjI impI)
  assume "scoped_ptr_get w s = Inr (p, s)"
  then show "scoped_ptr_swap w w s = Inr s"
    by (auto simp: scoped_ptr_get_iff scoped_ptr_swap_live list_update_same_conv)
next
  assume "scoped_array_get v s = Inr (q, s)"
  then show "scoped_array_swap v v s = Inr s"
    by (auto simp: scoped_array_get_iff scoped_array_swap_live list_update_same_conv)
next
  assume h: "scoped_ptr_swap a b s = Inr s'"
  then obtain pa pb
    where "scoped_ptr_get a s = Inr (pa, s)" "scoped_ptr_get b s = Inr (pb, s)"
    using scoped_ptr_swap_Inr by blast
  then have a: "a < length (ptrs s)" "ptrs s ! a = Some \<lparr>ptr_m = pa\<rparr>"
    and b: "b < length (ptrs s)" "ptrs s ! b = Some \<lparr>ptr_m = pb\<rparr>"
    by (simp_all add: scoped_ptr_get_iff)
  let ?h = "(ptrs s)[a := Some \<lparr>ptr_m = pb\<rparr>, b := Some \<lparr>ptr_m = pa\<rparr>]"
  let ?pa' = "if a = b then pa else pb"
  from h a b have s': "s' = s\<lparr>ptrs := ?h\<rparr>"
    by (simp add: scoped_ptr_swap_live)
  have a': "?h ! a = Some \<lparr>ptr_m = ?pa'\<rparr>" and b': "?h ! b = Some \<lparr>ptr_m = pa\<rparr>"
    using a b by (auto simp: nth_list_update)
  have "?h[a := Some \<lparr>ptr_m = pa\<rparr>, b := Some \<lparr>ptr_m = ?pa'\<rparr>] = ptrs s"
    using a b by (auto simp: list_eq_iff_nth_eq nth_list_update)
  then show "scoped_ptr_swap a b s' = Inr s"
    using a b a' b' by (simp add: s' scoped_ptr_swap_live)
next
  assume h: "scoped_array_swap c d s = Inr s''"
  then obtain qc qd
    where "scoped_array_get c s = Inr (qc, s)" "scoped_array_get d s = Inr (qd, s)"
    using scoped_array_swap_Inr by blast
  then have c: "c < length (arrays s)" "arrays s ! c = Some \<lparr>array_m = qc\<rparr>"
    and d: "d < length (arrays s)" "arrays s ! d = Some \<lparr>array_m = qd\<rparr>"
    by (simp_all add: scoped_array_get_iff)
  let ?h = "(arrays s)[c := Some \<lparr>array_m = qd\<rparr>, d := Some \<lparr>array_m = qc\<rparr>]"
  let ?qc' = "if c = d then qc else qd"
  from h c d have s'': "s'' = s\<lparr>arrays := ?h\<rparr>"
    by (simp add: scoped_array_swap_live)
  have c': "?h ! c = Some \<lparr>array_m = ?qc'\<rparr>" and d': "?h ! d = Some \<lparr>array_m = qc\<rparr>"
    using c d by (auto simp: nth_list_update)
  have "?h[c := Some \<lparr>array_m = qc\<rparr>, d := Some \<lparr>array_m = ?qc'\<rparr>] = arrays s"
    using c d by (auto simp: list_eq_iff_nth_eq nth_list_update)
  then show "scoped_array_swap c d s'' = Inr s"
    using c d c' d' by (simp add: s'' scoped_array_swap_live)
qed

theorem swap_self_and_twice_witness:
  "scoped_ptr_get 0 (holding [7, 8] [9, 5]) = Inr (7, holding [7, 8] [9, 5]) \<and>
   scoped_ptr_swap 0 0 (holding [7, 8] [9, 5]) = Inr (holding [7, 8] [9, 5]) \<and>
   scoped_array_get 1 (holding [7, 8] [9, 5]) = Inr (5, holding [7, 8] [9, 5]) \<and>
   scoped_array_swap 1 1 (holding [7, 8] [9, 5]) = Inr (holding [7, 8] [9, 5]) \<and>
   scoped_ptr_swap 0 1 (holding [7, 8] [9, 5]) = Inr (holding [8, 7] [9, 5]) \<and>
   scoped_ptr_swap 0 1 (holding [8, 7] [9, 5]) = Inr (holding [7, 8] [9, 5]) \<and>
   scoped_array_swap 0 1 (holding [7, 8] [9, 5]) = Inr (holding [7, 8] [5, 9]) \<and>
   scoped_array_swap 0 1 (holding [7, 8] [5, 9]) = Inr (holding [7, 8] [9, 5])"
  using swap_self_and_twice [of 0 "holding [7, 8] [9, 5]" 7 1 5 0 1 "holding [8, 7] [9, 5]"
      0 1 "holding [7, 8] [5, 9]"]
  by (simp add: scoped_ptr_get_def scoped_array_get_def scoped_ptr_swap_def
      scoped_array_swap_def object_def holding_def Let_def)



section \<open>Deallocations and adoptions over a whole run\<close>

text \<open>Counting in a list one of whose positions is overwritten, or two exchanged.\<close>

lemma count_list_update:
  "i < length xs \<Longrightarrow>
   count_list (xs[i := v]) c + (if xs ! i = c then 1 else 0)
     = count_list xs c + (if v = c then 1 else 0)"
proof (induction xs arbitrary: i)
  case Nil
  then show ?case by simp
next
  case (Cons x xs)
  show ?case
  proof (cases i)
    case 0
    then show ?thesis by simp
  next
    case (Suc j)
    with Cons.prems have "j < length xs" by simp
    from Cons.IH [OF this] Suc show ?thesis by (auto split: if_splits)
  qed
qed

lemma count_list_swap:
  assumes "i < length xs" "j < length xs" "xs ! i = a" "xs ! j = b"
  shows "count_list (xs[i := b, j := a]) c = count_list xs c"
proof -
  let ?ys = "xs[i := b]"
  from assms have j: "j < length ?ys" by simp
  from count_list_update [OF assms(1), of b c]
    count_list_update [OF j, of a c] assms
  show ?thesis
    by (cases "i = j") (auto split: if_splits)
qed

text \<open>Each operation keeps the books of both classes.\<close>

lemma step_accounted_single:
  assumes inv: "accounted_single A s q" and st: "step x s = Inr s'" and q: "q \<noteq> nullptr"
  shows "accounted_single (A @ adopted x s) s' q"
proof (cases x)
  case (Ptr_construct p)
  with inv st q show ?thesis
    by (auto simp: accounted_single_def scoped_ptr_ctor_def discard_def)
next
  case (Ptr_destruct w)
  with st obtain r where "scoped_ptr_get w s = Inr (r, s)"
    using scoped_ptr_dtor_Inr by fastforce
  then have w: "w < length (ptrs s)" "ptrs s ! w = Some \<lparr>ptr_m = r\<rparr>"
    by (simp_all add: scoped_ptr_get_iff)
  with st Ptr_destruct have s': "s' = (delete_single r s)\<lparr>ptrs := (ptrs s)[w := None]\<rparr>"
    by (simp add: scoped_ptr_dtor_live)
  from count_list_update [OF w(1), of None "Some \<lparr>ptr_m = q\<rparr>"] w inv q
  show ?thesis
    by (auto simp: s' Ptr_destruct accounted_single_def delete_single_def split: if_splits)
next
  case (Ptr_reset w p)
  with st obtain r where "scoped_ptr_get w s = Inr (r, s)"
    using scoped_ptr_reset_Inr by fastforce
  then have w: "w < length (ptrs s)" "ptrs s ! w = Some \<lparr>ptr_m = r\<rparr>"
    by (simp_all add: scoped_ptr_get_iff)
  with st Ptr_reset have s': "s' = (if p \<noteq> r
          then (delete_single r s)\<lparr>ptrs := (ptrs s)[w := Some \<lparr>ptr_m = p\<rparr>]\<rparr> else s)"
    by (simp add: scoped_ptr_reset_live)
  from count_list_update [OF w(1), of "Some \<lparr>ptr_m = p\<rparr>" "Some \<lparr>ptr_m = q\<rparr>"] w inv q
  show ?thesis
    by (auto simp: s' Ptr_reset accounted_single_def delete_single_def object_live
        split: if_splits)
next
  case (Ptr_swap w w2)
  with st obtain r r2
    where "scoped_ptr_get w s = Inr (r, s)" "scoped_ptr_get w2 s = Inr (r2, s)"
    using scoped_ptr_swap_Inr by fastforce
  then have w: "w < length (ptrs s)" "ptrs s ! w = Some \<lparr>ptr_m = r\<rparr>"
    and w2: "w2 < length (ptrs s)" "ptrs s ! w2 = Some \<lparr>ptr_m = r2\<rparr>"
    by (simp_all add: scoped_ptr_get_iff)
  with st Ptr_swap
  have s': "s' = s\<lparr>ptrs := (ptrs s)[w := Some \<lparr>ptr_m = r2\<rparr>, w2 := Some \<lparr>ptr_m = r\<rparr>]\<rparr>"
    by (simp add: scoped_ptr_swap_live)
  from count_list_swap [OF w(1) w2(1) w(2) w2(2)] inv
  show ?thesis
    by (simp add: s' Ptr_swap accounted_single_def)
next
  case (Ptr_release w)
  with st obtain r where "scoped_ptr_get w s = Inr (r, s)"
    using scoped_ptr_release_Inr by (fastforce simp: discard_def split: sum.splits)
  then have w: "w < length (ptrs s)" "ptrs s ! w = Some \<lparr>ptr_m = r\<rparr>"
    by (simp_all add: scoped_ptr_get_iff)
  with st Ptr_release
  have s': "s' = s\<lparr>ptrs := (ptrs s)[w := Some \<lparr>ptr_m = nullptr\<rparr>]\<rparr>"
    by (simp add: scoped_ptr_release_live discard_def)
  from count_list_update [OF w(1), of "Some \<lparr>ptr_m = nullptr\<rparr>" "Some \<lparr>ptr_m = q\<rparr>"]
    w inv q
  show ?thesis
    by (auto simp: s' Ptr_release accounted_single_def split: if_splits)
next
  case (Array_construct p)
  with inv st q show ?thesis
    by (auto simp: accounted_single_def scoped_array_ctor_def discard_def)
next
  case (Array_destruct w)
  with inv st q show ?thesis
    by (auto simp: accounted_single_def scoped_array_dtor_def delete_array_def Let_def
        split: sum.splits if_splits)
next
  case (Array_reset w p)
  with inv st q show ?thesis
    by (auto simp: accounted_single_def scoped_array_reset_def delete_array_def Let_def
        split: sum.splits if_splits)
next
  case (Array_swap w w2)
  with inv st q show ?thesis
    by (auto simp: accounted_single_def scoped_array_swap_def Let_def split: sum.splits)
next
  case (Array_release w)
  with inv st q show ?thesis
    by (auto simp: accounted_single_def scoped_array_release_def discard_def Let_def
        split: sum.splits)
qed

lemma step_accounted_array:
  assumes inv: "accounted_array A s q" and st: "step x s = Inr s'" and q: "q \<noteq> nullptr"
  shows "accounted_array (A @ adopted x s) s' q"
proof (cases x)
  case (Array_construct p)
  with inv st q show ?thesis
    by (auto simp: accounted_array_def scoped_array_ctor_def discard_def)
next
  case (Array_destruct w)
  with st obtain r where "scoped_array_get w s = Inr (r, s)"
    using scoped_array_dtor_Inr by fastforce
  then have w: "w < length (arrays s)" "arrays s ! w = Some \<lparr>array_m = r\<rparr>"
    by (simp_all add: scoped_array_get_iff)
  with st Array_destruct have s': "s' = (delete_array r s)\<lparr>arrays := (arrays s)[w := None]\<rparr>"
    by (simp add: scoped_array_dtor_live)
  from count_list_update [OF w(1), of None "Some \<lparr>array_m = q\<rparr>"] w inv q
  show ?thesis
    by (auto simp: s' Array_destruct accounted_array_def delete_array_def split: if_splits)
next
  case (Array_reset w p)
  with st obtain r where "scoped_array_get w s = Inr (r, s)"
    using scoped_array_reset_Inr by fastforce
  then have w: "w < length (arrays s)" "arrays s ! w = Some \<lparr>array_m = r\<rparr>"
    by (simp_all add: scoped_array_get_iff)
  with st Array_reset have s': "s' = (if p \<noteq> r
          then (delete_array r s)\<lparr>arrays := (arrays s)[w := Some \<lparr>array_m = p\<rparr>]\<rparr> else s)"
    by (simp add: scoped_array_reset_live)
  from count_list_update [OF w(1), of "Some \<lparr>array_m = p\<rparr>" "Some \<lparr>array_m = q\<rparr>"] w inv q
  show ?thesis
    by (auto simp: s' Array_reset accounted_array_def delete_array_def object_live
        split: if_splits)
next
  case (Array_swap w w2)
  with st obtain r r2
    where "scoped_array_get w s = Inr (r, s)" "scoped_array_get w2 s = Inr (r2, s)"
    using scoped_array_swap_Inr by fastforce
  then have w: "w < length (arrays s)" "arrays s ! w = Some \<lparr>array_m = r\<rparr>"
    and w2: "w2 < length (arrays s)" "arrays s ! w2 = Some \<lparr>array_m = r2\<rparr>"
    by (simp_all add: scoped_array_get_iff)
  with st Array_swap
  have s': "s' = s\<lparr>arrays := (arrays s)[w := Some \<lparr>array_m = r2\<rparr>, w2 := Some \<lparr>array_m = r\<rparr>]\<rparr>"
    by (simp add: scoped_array_swap_live)
  from count_list_swap [OF w(1) w2(1) w(2) w2(2)] inv
  show ?thesis
    by (simp add: s' Array_swap accounted_array_def)
next
  case (Array_release w)
  with st obtain r where "scoped_array_get w s = Inr (r, s)"
    using scoped_array_release_Inr by (fastforce simp: discard_def split: sum.splits)
  then have w: "w < length (arrays s)" "arrays s ! w = Some \<lparr>array_m = r\<rparr>"
    by (simp_all add: scoped_array_get_iff)
  with st Array_release
  have s': "s' = s\<lparr>arrays := (arrays s)[w := Some \<lparr>array_m = nullptr\<rparr>]\<rparr>"
    by (simp add: scoped_array_release_live discard_def)
  from count_list_update [OF w(1), of "Some \<lparr>array_m = nullptr\<rparr>" "Some \<lparr>array_m = q\<rparr>"]
    w inv q
  show ?thesis
    by (auto simp: s' Array_release accounted_array_def split: if_splits)
next
  case (Ptr_construct p)
  with inv st q show ?thesis
    by (auto simp: accounted_array_def scoped_ptr_ctor_def discard_def)
next
  case (Ptr_destruct w)
  with inv st q show ?thesis
    by (auto simp: accounted_array_def scoped_ptr_dtor_def delete_single_def Let_def
        split: sum.splits if_splits)
next
  case (Ptr_reset w p)
  with inv st q show ?thesis
    by (auto simp: accounted_array_def scoped_ptr_reset_def delete_single_def Let_def
        split: sum.splits if_splits)
next
  case (Ptr_swap w w2)
  with inv st q show ?thesis
    by (auto simp: accounted_array_def scoped_ptr_swap_def Let_def split: sum.splits)
next
  case (Ptr_release w)
  with inv st q show ?thesis
    by (auto simp: accounted_array_def scoped_ptr_release_def discard_def Let_def
        split: sum.splits)
qed


text \<open>An operation adds no call or one deallocation of a non-null pointer.\<close>

lemma step_calls:
  assumes "step x s = Inr s'"
  shows "calls s' = calls s \<or> (\<exists>k p. p \<noteq> nullptr \<and> calls s' = calls s @ [Deallocate k p])"
  using assms
  by (cases x)
     (auto simp: discard_def scoped_ptr_ctor_def scoped_ptr_dtor_def scoped_ptr_reset_def
        scoped_ptr_swap_def scoped_ptr_release_def scoped_array_ctor_def scoped_array_dtor_def
        scoped_array_reset_def scoped_array_swap_def scoped_array_release_def
        delete_single_def delete_array_def Let_def split: sum.splits if_splits)

lemma step_only_deallocations:
  assumes "only_deallocations s" "step x s = Inr s'"
  shows "only_deallocations s'"
  using assms(1) step_calls [OF assms(2)]
  by (auto simp: only_deallocations_def)

lemma run_only_deallocations:
  "only_deallocations s \<Longrightarrow> run xs s = Inr s' \<Longrightarrow> only_deallocations s'"
proof (induction xs arbitrary: s)
  case Nil
  then show ?case by simp
next
  case (Cons x xs)
  then show ?case
    by (auto split: sum.splits dest: step_only_deallocations)
qed

lemma run_accounted_single:
  "accounted_single A s q \<Longrightarrow> run xs s = Inr s' \<Longrightarrow> q \<noteq> nullptr \<Longrightarrow>
   accounted_single (A @ adoptions xs s) s' q"
proof (induction xs arbitrary: A s)
  case Nil
  then show ?case by simp
next
  case (Cons x xs)
  from Cons.prems(2) obtain s1 where s1: "step x s = Inr s1" and r: "run xs s1 = Inr s'"
    by (auto split: sum.splits)
  from step_accounted_single [OF Cons.prems(1) s1 Cons.prems(3)]
  have "accounted_single ((A @ adopted x s) @ adoptions xs s1) s' q"
    using Cons.IH r Cons.prems(3) by blast
  with s1 show ?case by simp
qed

lemma run_accounted_array:
  "accounted_array A s q \<Longrightarrow> run xs s = Inr s' \<Longrightarrow> q \<noteq> nullptr \<Longrightarrow>
   accounted_array (A @ adoptions xs s) s' q"
proof (induction xs arbitrary: A s)
  case Nil
  then show ?case by simp
next
  case (Cons x xs)
  from Cons.prems(2) obtain s1 where s1: "step x s = Inr s1" and r: "run xs s1 = Inr s'"
    by (auto split: sum.splits)
  from step_accounted_array [OF Cons.prems(1) s1 Cons.prems(3)]
  have "accounted_array ((A @ adopted x s) @ adoptions xs s1) s' q"
    using Cons.IH r Cons.prems(3) by blast
  with s1 show ?case by simp
qed

text \<open>From the empty program, where nothing is held and nothing was called.\<close>

lemma run_deallocations_le_adoptions:
  assumes "run xs init = Inr s"
  shows "count_list (calls s) (Deallocate k p) \<le> count_list (adoptions xs init) (k, p)"
proof (cases "p = nullptr")
  case True
  have "only_deallocations init"
    by (simp add: only_deallocations_def init_def)
  from run_only_deallocations [OF this assms] True
  have "Deallocate k p \<notin> set (calls s)"
    by (auto simp: only_deallocations_def)
  then show ?thesis by (simp add: count_list_0_iff)
next
  case False
  show ?thesis
  proof (cases k)
    case Single
    have "accounted_single [] init p"
      by (simp add: accounted_single_def init_def)
    from run_accounted_single [OF this assms False] Single show ?thesis
      by (simp add: accounted_single_def)
  next
    case Array
    have "accounted_array [] init p"
      by (simp add: accounted_array_def init_def)
    from run_accounted_array [OF this assms False] Array show ?thesis
      by (simp add: accounted_array_def)
  qed
qed

text \<open>
  C1, as stated, fails when a reference is counted by its address: a wrapper may adopt
  the same pointer again after it has deallocated it.  In
  \<open>scoped_ptr<C> w(p7); w.reset(p8); w.reset(p7);\<close> followed by the destructor, the
  first \<open>reset\<close> deletes \<open>p7\<close>, the second deletes \<open>p8\<close> and adopts \<open>p7\<close> anew, and
  the destructor deletes \<open>p7\<close> a second time: one wrapper, two deallocations of the
  same pointer.
\<close>

theorem readopted_pointer_deallocated_twice:
  "run [Ptr_construct 7, Ptr_reset 0 8, Ptr_reset 0 7, Ptr_destruct 0] init
     = Inr \<lparr>ptrs = [None], arrays = [],
            calls = [Deallocate Single 7, Deallocate Single 8, Deallocate Single 7]\<rparr> \<and>
   count_list [Deallocate Single 7, Deallocate Single 8, Deallocate Single 7]
     (Deallocate Single 7) = 2"
  by (simp add: init_def nullptr_def discard_def object_def Let_def scoped_ptr_ctor_def
      scoped_ptr_reset_def scoped_ptr_dtor_def delete_single_def)

text \<open>
  C1, amended.  Take any sequence of constructions, destructions, \<open>reset\<close>s, \<open>swap\<close>s
  and \<open>release\<close>s on any number of wrappers of both classes, run from the empty
  program to a state \<open>s\<close>.  For every pointer \<open>p\<close> and either kind \<open>k\<close>, the
  deallocation primitive of kind \<open>k\<close> was called on \<open>p\<close> at most as many times as a
  wrapper of that class adopted \<open>p\<close>: at most one deallocation for each adoption, so
  at most once for a reference that was adopted once.  In particular the destructor of
  a live wrapper that holds \<open>q\<close> returns and adds no call when \<open>q\<close> is null (the Empty
  state), and exactly one deallocation of \<open>q\<close>, of the kind of its class, when it is
  not.
\<close>

theorem deallocation_at_most_once_per_adoption:
  "(run xs init = Inr s \<longrightarrow>
      count_list (calls s) (Deallocate k p) \<le> count_list (adoptions xs init) (k, p) \<and>
      (count_list (adoptions xs init) (k, p) \<le> 1 \<longrightarrow>
         count_list (calls s) (Deallocate k p) \<le> 1)) \<and>
   (scoped_ptr_get w t = Inr (q, t) \<longrightarrow>
      (\<exists>t'. scoped_ptr_dtor w t = Inr t' \<and>
            calls t' = calls t @ (if q = nullptr then [] else [Deallocate Single q]))) \<and>
   (scoped_array_get v t = Inr (r, t) \<longrightarrow>
      (\<exists>t'. scoped_array_dtor v t = Inr t' \<and>
            calls t' = calls t @ (if r = nullptr then [] else [Deallocate Array r])))"
proof (intro conjI impI)
  assume "run xs init = Inr s"
  then show le: "count_list (calls s) (Deallocate k p) \<le> count_list (adoptions xs init) (k, p)"
    by (rule run_deallocations_le_adoptions)
  assume "count_list (adoptions xs init) (k, p) \<le> 1"
  with le show "count_list (calls s) (Deallocate k p) \<le> 1"
    by simp
next
  assume "scoped_ptr_get w t = Inr (q, t)"
  then show "\<exists>t'. scoped_ptr_dtor w t = Inr t' \<and>
            calls t' = calls t @ (if q = nullptr then [] else [Deallocate Single q])"
    by (auto simp: scoped_ptr_get_iff scoped_ptr_dtor_live delete_single_def)
next
  assume "scoped_array_get v t = Inr (r, t)"
  then show "\<exists>t'. scoped_array_dtor v t = Inr t' \<and>
            calls t' = calls t @ (if r = nullptr then [] else [Deallocate Array r])"
    by (auto simp: scoped_array_get_iff scoped_array_dtor_live delete_array_def)
qed


theorem deallocation_at_most_once_per_adoption_witness:
  "run [Ptr_construct 7, Array_construct 9, Ptr_reset 0 8, Ptr_release 0, Ptr_destruct 0,
        Array_destruct 0] init
     = Inr \<lparr>ptrs = [None], arrays = [None],
            calls = [Deallocate Single 7, Deallocate Array 9]\<rparr> \<and>
   count_list [Deallocate Single 7, Deallocate Array 9] (Deallocate Single 7)
     \<le> count_list
         (adoptions [Ptr_construct 7, Array_construct 9, Ptr_reset 0 8, Ptr_release 0,
                     Ptr_destruct 0, Array_destruct 0] init) (Single, 7) \<and>
   count_list
     (adoptions [Ptr_construct 7, Array_construct 9, Ptr_reset 0 8, Ptr_release 0,
                 Ptr_destruct 0, Array_destruct 0] init) (Single, 7) \<le> 1 \<and>
   count_list [Deallocate Single 7, Deallocate Array 9] (Deallocate Single 7) \<le> 1 \<and>
   scoped_ptr_get 0 (holding [nullptr] [9]) = Inr (nullptr, holding [nullptr] [9]) \<and>
   (\<exists>t'. scoped_ptr_dtor 0 (holding [nullptr] [9]) = Inr t' \<and> calls t' = []) \<and>
   scoped_array_get 0 (holding [nullptr] [9]) = Inr (9, holding [nullptr] [9]) \<and>
   (\<exists>t'. scoped_array_dtor 0 (holding [nullptr] [9]) = Inr t' \<and>
         calls t' = [Deallocate Array 9])"
  using deallocation_at_most_once_per_adoption
    [of "[Ptr_construct 7, Array_construct 9, Ptr_reset 0 8, Ptr_release 0, Ptr_destruct 0,
          Array_destruct 0]"
        "\<lparr>ptrs = [None], arrays = [None],
          calls = [Deallocate Single 7, Deallocate Array 9]\<rparr>"
        Single 7 0 "holding [nullptr] [9]" nullptr 0 9]
  by (simp add: init_def holding_def nullptr_def discard_def object_def Let_def
      scoped_ptr_ctor_def scoped_array_ctor_def scoped_ptr_reset_def scoped_ptr_release_def
      scoped_ptr_dtor_def scoped_array_dtor_def scoped_ptr_get_def scoped_array_get_def
      delete_single_def delete_array_def)


section \<open>The kind of deallocation used by \<open>scoped_array\<close>\<close>

text \<open>
  C6.  Let \<open>v\<close> be a \<open>scoped_array\<close> that holds a non-null \<open>q\<close>.  Its destructor, and
  \<open>reset\<close> to a different pointer, add to the allocator's record exactly the one call
  \<open>delete[] q\<close>.  Wrapping \<open>q\<close> in a new \<open>scoped_array\<close> and destructing it, with no
  \<open>release\<close> in between, adds exactly that call too: the count of array
  deallocations of \<open>q\<close> goes up by one and no count of a single-object deallocation
  changes.
\<close>

theorem scoped_array_uses_array_delete:
  "(scoped_array_get v s = Inr (q, s) \<and> q \<noteq> nullptr \<longrightarrow>
      (\<exists>s'. scoped_array_dtor v s = Inr s' \<and> calls s' = calls s @ [Deallocate Array q])) \<and>
   (scoped_array_get v s = Inr (q, s) \<and> q \<noteq> nullptr \<and> q2 \<noteq> q \<longrightarrow>
      (\<exists>s'. scoped_array_reset v q2 s = Inr s' \<and>
            calls s' = calls s @ [Deallocate Array q])) \<and>
   (r \<noteq> nullptr \<longrightarrow>
      (\<exists>s'. run [Array_construct r, Array_destruct (length (arrays s))] s = Inr s' \<and>
            calls s' = calls s @ [Deallocate Array r] \<and>
            count_list (calls s') (Deallocate Array r)
              = count_list (calls s) (Deallocate Array r) + 1 \<and>
            (\<forall>p. count_list (calls s') (Deallocate Single p)
              = count_list (calls s) (Deallocate Single p))))"
proof (intro conjI impI)
  assume "scoped_array_get v s = Inr (q, s) \<and> q \<noteq> nullptr"
  then show "\<exists>s'. scoped_array_dtor v s = Inr s' \<and> calls s' = calls s @ [Deallocate Array q]"
    by (auto simp: scoped_array_get_iff scoped_array_dtor_live delete_array_def)
next
  assume "scoped_array_get v s = Inr (q, s) \<and> q \<noteq> nullptr \<and> q2 \<noteq> q"
  then show "\<exists>s'. scoped_array_reset v q2 s = Inr s' \<and>
      calls s' = calls s @ [Deallocate Array q]"
    by (auto simp: scoped_array_get_iff scoped_array_reset_live delete_array_def)
next
  assume r: "r \<noteq> nullptr"
  let ?s1 = "s\<lparr>arrays := arrays s @ [Some \<lparr>array_m = r\<rparr>]\<rparr>"
  let ?n = "length (arrays s)"
  have live: "?n < length (arrays ?s1)" "arrays ?s1 ! ?n = Some \<lparr>array_m = r\<rparr>"
    by simp_all
  have "step (Array_construct r) s = Inr ?s1"
    by (simp add: scoped_array_ctor_def discard_def)
  moreover have "step (Array_destruct ?n) ?s1
      = Inr ((delete_array r ?s1)\<lparr>arrays := (arrays ?s1)[?n := None]\<rparr>)"
    using scoped_array_dtor_live [OF live] by simp
  ultimately show "\<exists>s'. run [Array_construct r, Array_destruct ?n] s = Inr s' \<and>
      calls s' = calls s @ [Deallocate Array r] \<and>
      count_list (calls s') (Deallocate Array r)
        = count_list (calls s) (Deallocate Array r) + 1 \<and>
      (\<forall>p. count_list (calls s') (Deallocate Single p)
        = count_list (calls s) (Deallocate Single p))"
    using r by (simp add: delete_array_def)
qed

theorem scoped_array_uses_array_delete_witness:
  "scoped_array_get 0 (holding [7] [9]) = Inr (9, holding [7] [9]) \<and> (9::nat) \<noteq> nullptr \<and>
   (\<exists>s'. scoped_array_dtor 0 (holding [7] [9]) = Inr s' \<and>
         calls s' = [Deallocate Array 9]) \<and>
   (5::nat) \<noteq> 9 \<and>
   (\<exists>s'. scoped_array_reset 0 5 (holding [7] [9]) = Inr s' \<and>
         calls s' = [Deallocate Array 9]) \<and>
   (\<exists>s'. run [Array_construct 9, Array_destruct 0] init = Inr s' \<and>
         calls s' = [Deallocate Array 9] \<and>
         count_list (calls s') (Deallocate Array 9) = 1 \<and>
         (\<forall>p. count_list (calls s') (Deallocate Single p) = 0))"
  using scoped_array_uses_array_delete [of 0 "holding [7] [9]" 9 5 9]
    scoped_array_uses_array_delete [of 0 init 0 0 9]
  by (simp add: scoped_array_get_def object_def holding_def nullptr_def init_def)

section \<open>Access to the pointee\<close>

text \<open>
  C5, as stated, fails: the checks are \<open>assert\<close>s, and a build with \<open>NDEBUG\<close> defined
  compiles them out.  There \<open>operator->\<close> of a \<open>scoped_ptr\<close> that holds no reference
  returns the null pointer to its caller instead of stopping the program.
\<close>

theorem access_check_elided_under_NDEBUG:
  "scoped_ptr_get 0 (holding [nullptr] []) = Inr (nullptr, holding [nullptr] []) \<and>
   scoped_ptr_operator_arrow True 0 (holding [nullptr] [])
     = Inr (nullptr, holding [nullptr] [])"
  by (simp add: scoped_ptr_get_def scoped_ptr_operator_arrow_def c_assert_def object_def
      holding_def)

text \<open>
  C5, amended.  In a build without \<open>NDEBUG\<close>: \<open>operator*\<close> and \<open>operator->\<close> of a
  \<open>scoped_ptr\<close> that holds no reference, and \<open>operator[]\<close> of a \<open>scoped_array\<close> that
  holds no reference or is given a negative index, stop the program with a failed
  assertion.
\<close>

theorem empty_access_asserts_without_NDEBUG:
  "(scoped_ptr_get w s = Inr (nullptr, s) \<longrightarrow>
      scoped_ptr_operator_star False w s = Inl Assertion_failed \<and>
      scoped_ptr_operator_arrow False w s = Inl Assertion_failed) \<and>
   (scoped_array_get v s = Inr (q, s) \<and> (q = nullptr \<or> i < 0) \<longrightarrow>
      scoped_array_operator_index False v i s = Inl Assertion_failed)"
  by (auto simp: scoped_ptr_get_iff scoped_array_get_iff object_live c_assert_def
      scoped_ptr_operator_star_def scoped_ptr_operator_arrow_def
      scoped_array_operator_index_def)

theorem empty_access_asserts_without_NDEBUG_witness:
  "scoped_ptr_get 0 (holding [nullptr] [9]) = Inr (nullptr, holding [nullptr] [9]) \<and>
   scoped_ptr_operator_star False 0 (holding [nullptr] [9]) = Inl Assertion_failed \<and>
   scoped_ptr_operator_arrow False 0 (holding [nullptr] [9]) = Inl Assertion_failed \<and>
   scoped_array_get 0 (holding [nullptr] [9]) = Inr (9, holding [nullptr] [9]) \<and>
   (- 1 :: int) < 0 \<and>
   scoped_array_operator_index False 0 (- 1) (holding [nullptr] [9]) = Inl Assertion_failed"
  using empty_access_asserts_without_NDEBUG [of 0 "holding [nullptr] [9]" 0 9 "- 1"]
  by (simp add: scoped_ptr_get_def scoped_array_get_def object_def holding_def)

end
